theory Spec2Isabelle
  imports Main
begin

section \<open>Python values and exceptions\<close>

text \<open>
  The values that reach the option and file system code of shastity. Python 2 keeps
  \<open>int\<close> and \<open>long\<close>, and \<open>str\<close> and \<open>unicode\<close>, as different types; \<open>bool\<close> is a
  subclass of \<open>int\<close>.
\<close>

datatype pyval =
    PyNone
  | PyBool bool
  | PyInt int
  | PyLong int
  | PyStr string
  | PyUnicode string

text \<open>
  The exceptions of \<open>config.py\<close> and \<open>filesystem.py\<close>, and the built-in ones their
  code raises. \<open>RequiredOptionMissingError\<close> carries \<open>option_name\<close> and \<open>comment\<close>,
  \<open>ConflictingMergeError\<close> its argument, \<open>StaleTemporaryDirectory\<close> the path,
  \<open>NameError\<close> the global name that is not defined. The message text of
  \<open>BadOptionValueType\<close> is left out.
\<close>

datatype error =
    RequiredOptionMissingError string pyval
  | BadOptionValueType
  | ConflictingMergeError string
  | StaleTemporaryDirectory string
  | NotImplementedError
  | NameError string
  | TypeError
  | AttributeError
  | AssertionError
  | KeyError string
  | ValueError
  | OSError string

section \<open>filesystem.py: TemporaryDirectory\<close>

text \<open>
  A \<open>TemporaryDirectory\<close> holds \<open>__fs\<close>, \<open>__path\<close> and \<open>__stale\<close>. The type \<open>'fs\<close>
  stands for the \<open>FileSystem\<close> instances, so the constructor's
  \<open>assert isinstance(fs, FileSystem)\<close> holds by typing.
\<close>

record 'fs TemporaryDirectory =
  td_fs :: 'fs
  td_path :: string
  td_stale :: bool

definition TemporaryDirectory_init :: "'fs \<Rightarrow> string \<Rightarrow> 'fs TemporaryDirectory" where
  "TemporaryDirectory_init fs path = \<lparr>td_fs = fs, td_path = path, td_stale = False\<rparr>"

text \<open>
  \<open>rmtree\<close> is a method of the file system the handle was given: it acts on a world
  \<open>'w\<close> (the OS, or the tree of a memory file system) and either returns or raises.
  \<open>close\<close> is written over any such method.
\<close>

type_synonym ('fs, 'w) rmtree = "'fs \<Rightarrow> string \<Rightarrow> 'w \<Rightarrow> error option \<times> 'w"

definition TemporaryDirectory_close ::
  "('fs, 'w) rmtree \<Rightarrow> 'fs TemporaryDirectory \<Rightarrow> 'w \<Rightarrow> error option \<times> 'fs TemporaryDirectory \<times> 'w" where
  "TemporaryDirectory_close rmtree self w =
     (if \<not> td_stale self then
        (let self' = self\<lparr>td_stale := True\<rparr>;
             (raised, w') = rmtree (td_fs self') (td_path self') w
         in (raised, self', w'))
      else (None, self, w))"

definition TemporaryDirectory_enter :: "'fs TemporaryDirectory \<Rightarrow> 'fs TemporaryDirectory" where
  "TemporaryDirectory_enter self = self"

text \<open>\<open>__exit__(type, value, traceback)\<close> closes whatever its arguments are.\<close>

definition TemporaryDirectory_exit ::
  "('fs, 'w) rmtree \<Rightarrow> 'fs TemporaryDirectory \<Rightarrow> pyval \<Rightarrow> 'w \<Rightarrow> error option \<times> 'fs TemporaryDirectory \<times> 'w" where
  "TemporaryDirectory_exit rmtree self exc w = TemporaryDirectory_close rmtree self w"

definition TemporaryDirectory_get_fs :: "'fs TemporaryDirectory \<Rightarrow> error + 'fs" where
  "TemporaryDirectory_get_fs self =
     (if td_stale self then Inl (StaleTemporaryDirectory (td_path self)) else Inr (td_fs self))"

definition TemporaryDirectory_get_path :: "'fs TemporaryDirectory \<Rightarrow> error + string" where
  "TemporaryDirectory_get_path self =
     (if td_stale self then Inl (StaleTemporaryDirectory (td_path self)) else Inr (td_path self))"

text \<open>
  The life of one handle: any sequence of the calls its interface offers. A caller may
  catch what a call raises and go on, so a raise does not end the sequence.
\<close>

datatype td_call = Enter | Exit pyval | Close | ReadFs | ReadPath

fun td_do ::
  "('fs, 'w) rmtree \<Rightarrow> td_call \<Rightarrow> 'fs TemporaryDirectory \<times> 'w \<Rightarrow> 'fs TemporaryDirectory \<times> 'w" where
  "td_do rmtree Enter (self, w) = (TemporaryDirectory_enter self, w)"
| "td_do rmtree (Exit exc) (self, w) = snd (TemporaryDirectory_exit rmtree self exc w)"
| "td_do rmtree Close (self, w) = snd (TemporaryDirectory_close rmtree self w)"
| "td_do rmtree ReadFs (self, w) = (self, w)"
| "td_do rmtree ReadPath (self, w) = (self, w)"

fun td_run ::
  "('fs, 'w) rmtree \<Rightarrow> td_call list \<Rightarrow> 'fs TemporaryDirectory \<times> 'w \<Rightarrow> 'fs TemporaryDirectory \<times> 'w" where
  "td_run rmtree [] st = st"
| "td_run rmtree (c # cs) st = td_run rmtree cs (td_do rmtree c st)"

fun closes :: "td_call \<Rightarrow> bool" where
  "closes Close = True"
| "closes (Exit exc) = True"
| "closes c = False"

text \<open>
  To count the invocations, the method is wrapped so that the world also carries the
  list of \<open>rmtree\<close> calls made so far; \<open>close\<close> itself is unchanged.
\<close>

definition logged :: "('fs, 'w) rmtree \<Rightarrow> ('fs, ('fs \<times> string) list \<times> 'w) rmtree" where
  "logged rmtree fs path = (\<lambda>(calls, w).
     case rmtree fs path w of (raised, w') \<Rightarrow> (raised, (calls @ [(fs, path)], w')))"

section \<open>filesystem.py: MemoryFileSystem\<close>

text \<open>
  The tree of a memory file system: a directory is a dict from entry names to nodes, a
  file is the tuple \<open>('file', [contents])\<close>, a symlink the tuple \<open>('symlink', target)\<close>.
  The dict is an association list with distinct keys.
\<close>

datatype node = Dir "(string \<times> node) list" | File string | Symlink string

definition MemoryFileSystem_init :: node where
  "MemoryFileSystem_init = Dir [(''tmp'', Dir [])]"

text \<open>Python's \<open>s.split(sep)\<close> for a one-character separator: never an empty list.\<close>

fun str_split :: "char \<Rightarrow> string \<Rightarrow> string list" where
  "str_split sep [] = [[]]"
| "str_split sep (c # cs) =
     (if c = sep then [] # str_split sep cs
      else (case str_split sep cs of
              [] \<Rightarrow> [[c]]
            | w # ws \<Rightarrow> (c # w) # ws))"

text \<open>
  \<open>os.path.split\<close> of \<open>posixpath\<close>: cut after the last slash, then strip the
  slashes that end the head unless the head is slashes only.
\<close>

definition os_path_split :: "string \<Rightarrow> string \<times> string" where
  "os_path_split p =
     (let i = length p - length (takeWhile (\<lambda>c. c \<noteq> CHR ''/'') (rev p));
          head = take i p;
          tail = drop i p
      in (if head \<noteq> [] \<and> (\<exists>c\<in>set head. c \<noteq> CHR ''/'')
          then rev (dropWhile (\<lambda>c. c = CHR ''/'') (rev head))
          else head, tail))"

text \<open>
  \<open>__lookup\<close>. The module never imports \<open>errno\<close>, so building either \<open>OSError\<close>
  raises \<open>NameError\<close> first. The inner \<open>rec\<close> returns \<open>cur\<close> when no component is
  left; in the branch that descends, the value of the recursive call is dropped and the
  function ends without a \<open>return\<close>, which is \<open>None\<close>. A returned node is a reference into
  the tree: the list of keys that leads to it from the node \<open>rec\<close> was called on.
\<close>

fun rec :: "node \<Rightarrow> string list \<Rightarrow> error + string list option" where
  "rec cur [] = Inr (Some [])"
| "rec cur (c # comps) =
     (case cur of
        Dir entries \<Rightarrow>
          (case map_of entries c of
             Some child \<Rightarrow>
               (case rec child comps of
                  Inl e \<Rightarrow> Inl e
                | Inr dropped \<Rightarrow> Inr None)
           | None \<Rightarrow> Inl (NameError ''errno''))
      | File contents \<Rightarrow> Inl (NameError ''errno'')
      | Symlink target \<Rightarrow> Inl (NameError ''errno''))"

definition lookup :: "node \<Rightarrow> string \<Rightarrow> error + string list option" where
  "lookup tree path = rec tree (str_split CHR ''/'' path)"

definition split_slash_agnostically :: "string \<Rightarrow> error + string \<times> string" where
  "split_slash_agnostically path =
     (let (directory, file) = os_path_split path;
          (directory, file) = (if file = [] then os_path_split directory else (directory, file))
      in if directory = [] then Inl AssertionError
         else if file = [] then Inl AssertionError
         else Inr (directory, file))"

text \<open>The node a reference denotes, and the store \<open>d[key] = value\<close> through it.\<close>

fun node_at :: "node \<Rightarrow> string list \<Rightarrow> node option" where
  "node_at cur [] = Some cur"
| "node_at cur (k # ks) =
     (case cur of
        Dir entries \<Rightarrow> (case map_of entries k of Some child \<Rightarrow> node_at child ks | None \<Rightarrow> None)
      | File contents \<Rightarrow> None
      | Symlink target \<Rightarrow> None)"

fun setitem_at :: "node \<Rightarrow> string list \<Rightarrow> string \<Rightarrow> node \<Rightarrow> node" where
  "setitem_at cur [] key v =
     (case cur of
        Dir entries \<Rightarrow> Dir (filter (\<lambda>(k, n). k \<noteq> key) entries @ [(key, v)])
      | File contents \<Rightarrow> cur
      | Symlink target \<Rightarrow> cur)"
| "setitem_at cur (k # ks) key v =
     (case cur of
        Dir entries \<Rightarrow>
          Dir (map (\<lambda>(k', n). if k' = k then (k', setitem_at n ks key v) else (k', n)) entries)
      | File contents \<Rightarrow> cur
      | Symlink target \<Rightarrow> cur)"

text \<open>
  \<open>mkdir\<close> looks up \<open>path\<close> itself, then tests \<open>newdir in d\<close>: on \<open>None\<close> that is a
  \<open>TypeError\<close>, on a dict the key test, on a tuple the test of its two elements (a
  string never equals the contents list of a file). The \<open>EEXIST\<close> branch names
  \<open>errno\<close> too; the store into a tuple is a \<open>TypeError\<close>.
\<close>

definition MemoryFileSystem_mkdir :: "node \<Rightarrow> string \<Rightarrow> error + node" where
  "MemoryFileSystem_mkdir tree path =
     (case split_slash_agnostically path of
        Inl e \<Rightarrow> Inl e
      | Inr (directory, newdir) \<Rightarrow>
          (case lookup tree path of
             Inl e \<Rightarrow> Inl e
           | Inr None \<Rightarrow> Inl TypeError
           | Inr (Some d) \<Rightarrow>
               (case node_at tree d of
                  None \<Rightarrow> Inl TypeError
                | Some (Dir entries) \<Rightarrow>
                    if newdir \<in> set (map fst entries) then Inl (NameError ''errno'')
                    else Inr (setitem_at tree d newdir (Dir []))
                | Some (File contents) \<Rightarrow>
                    if newdir = ''file'' then Inl (NameError ''errno'') else Inl TypeError
                | Some (Symlink target) \<Rightarrow>
                    if newdir = ''symlink'' \<or> newdir = target then Inl (NameError ''errno'')
                    else Inl TypeError)))"

text \<open>
  \<open>exists\<close> returns \<open>os.path.exists(path)\<close>: what the operating system answers, given
  here as the parameter \<open>os_path_exists\<close>; the tree is not read.
\<close>

definition MemoryFileSystem_exists :: "(string \<Rightarrow> bool) \<Rightarrow> node \<Rightarrow> string \<Rightarrow> bool" where
  "MemoryFileSystem_exists os_path_exists tree path = os_path_exists path"

text \<open>\<open>rmtree\<close> of the memory file system raises \<open>NotImplementedError\<close>.\<close>

definition MemoryFileSystem_rmtree :: "('fs, 'w) rmtree" where
  "MemoryFileSystem_rmtree self path w = (Some NotImplementedError, w)"

section \<open>config.py: options\<close>

text \<open>
  An option object: the name of its class and the private attributes \<open>__long_name\<close>,
  \<open>__short_name\<close>, \<open>__set\<close> and \<open>__value\<close>. The constructor does not assign
  \<open>__value\<close>: \<open>val = None\<close> is the attribute not being there yet.
\<close>

record AbstractOption =
  cls :: string
  long_name :: string
  short_name :: "string option"
  is_set :: bool
  val :: "pyval option"

definition AbstractOption_init :: "string \<Rightarrow> string \<Rightarrow> string option \<Rightarrow> AbstractOption" where
  "AbstractOption_init c lname sname =
     \<lparr>cls = c, long_name = lname, short_name = sname, is_set = False, val = None\<rparr>"

text \<open>
  A constructor call \<open>C(long_name, short_name, **kw)\<close>: \<open>__init__(self, long_name,
  short_name=None)\<close> takes no other keyword, so any further keyword argument (such as
  \<open>default='test'\<close> of \<open>test_default\<close>) is a \<open>TypeError\<close>.
\<close>

definition new_option ::
  "string \<Rightarrow> string \<Rightarrow> string option \<Rightarrow> (string \<times> pyval) list \<Rightarrow> error + AbstractOption" where
  "new_option c lname sname other_keywords =
     (if other_keywords \<noteq> [] then Inl TypeError
      else Inr (AbstractOption_init c lname sname))"

definition name :: "AbstractOption \<Rightarrow> string" where
  "name self = long_name self"

text \<open>
  \<open>Option.__unicode__\<close> returns \<open>unicode(self.name)\<close>: \<open>self.name\<close> is not called, so
  the text is that of the bound method, which shows the class and the address of the
  instance (an old-style class, with no \<open>__repr__\<close>).
\<close>

definition hex_digit :: "nat \<Rightarrow> char" where
  "hex_digit d = ''0123456789abcdef'' ! d"

fun hex :: "nat \<Rightarrow> string" where
  "hex n = (if n < 16 then [hex_digit n] else hex (n div 16) @ [hex_digit (n mod 16)])"

definition bound_method_text :: "string \<Rightarrow> string \<Rightarrow> nat \<Rightarrow> string" where
  "bound_method_text c method addr =
     ''<bound method '' @ c @ ''.'' @ method @ '' of <shastity.config.'' @ c
       @ '' instance at 0x'' @ hex addr @ ''>>''"

definition Option_unicode :: "nat \<Rightarrow> AbstractOption \<Rightarrow> string" where
  "Option_unicode addr self = bound_method_text (cls self) ''name'' addr"

text \<open>
  \<open>set\<close> and \<open>parse\<close> call the hooks \<open>_validate\<close> and \<open>_parse\<close> of the subclass, given
  here as parameters.
\<close>

definition AbstractOption_set ::
  "(pyval \<Rightarrow> error + unit) \<Rightarrow> AbstractOption \<Rightarrow> pyval \<Rightarrow> error + AbstractOption" where
  "AbstractOption_set validate self v =
     (case validate v of
        Inl e \<Rightarrow> Inl e
      | Inr u \<Rightarrow> Inr (self\<lparr>is_set := True, val := Some v\<rparr>))"

definition AbstractOption_parse ::
  "(pyval \<Rightarrow> error + pyval) \<Rightarrow> (pyval \<Rightarrow> error + unit) \<Rightarrow> AbstractOption \<Rightarrow> pyval
     \<Rightarrow> error + AbstractOption" where
  "AbstractOption_parse parse validate self s =
     (case parse s of
        Inl e \<Rightarrow> Inl e
      | Inr v \<Rightarrow> AbstractOption_set validate self v)"

definition AbstractOption_get :: "AbstractOption \<Rightarrow> error + pyval" where
  "AbstractOption_get self = (case val self of None \<Rightarrow> Inl AttributeError | Some v \<Rightarrow> Inr v)"

definition AbstractOption_get_required :: "nat \<Rightarrow> AbstractOption \<Rightarrow> pyval \<Rightarrow> error + pyval" where
  "AbstractOption_get_required addr self comment =
     (if \<not> is_set self then Inl (RequiredOptionMissingError (Option_unicode addr self) comment)
      else AbstractOption_get self)"

fun assertString :: "pyval \<Rightarrow> error + unit" where
  "assertString (PyStr s) = Inr ()"
| "assertString (PyUnicode s) = Inr ()"
| "assertString obj = Inl BadOptionValueType"

text \<open>\<open>_assertType(obj, int)\<close>: \<open>isinstance\<close> holds of an \<open>int\<close> and of a \<open>bool\<close>.\<close>

fun assertType_int :: "pyval \<Rightarrow> error + unit" where
  "assertType_int (PyInt i) = Inr ()"
| "assertType_int (PyBool b) = Inr ()"
| "assertType_int obj = Inl BadOptionValueType"

definition StringOption_parse :: "AbstractOption \<Rightarrow> pyval \<Rightarrow> error + AbstractOption" where
  "StringOption_parse = AbstractOption_parse (\<lambda>s. Inr s) assertString"

definition StringOption_set :: "AbstractOption \<Rightarrow> pyval \<Rightarrow> error + AbstractOption" where
  "StringOption_set = AbstractOption_set assertString"

text \<open>\<open>IntOption._parse\<close> is the built-in \<open>int\<close>, a parameter here.\<close>

definition IntOption_parse ::
  "(pyval \<Rightarrow> error + pyval) \<Rightarrow> AbstractOption \<Rightarrow> pyval \<Rightarrow> error + AbstractOption" where
  "IntOption_parse py_int = AbstractOption_parse py_int assertType_int"

definition IntOption_set :: "AbstractOption \<Rightarrow> pyval \<Rightarrow> error + AbstractOption" where
  "IntOption_set = AbstractOption_set assertType_int"

section \<open>config.py: DefaultConfiguration\<close>

text \<open>
  Options and configurations are objects: a configuration's dict holds references to
  option objects. The store keeps the option objects and the \<open>__options\<close> dict of
  every \<open>DefaultConfiguration\<close> by address; \<open>conf_next\<close> is the address the next new
  configuration gets, the configurations that exist are those below it. A dict is an
  association list with distinct keys, in the order \<open>iteritems()\<close> yields them; a new
  key goes to the end (Python 2 fixes no order, and no property below depends on where
  it goes).
\<close>

record store =
  opt_heap :: "nat \<Rightarrow> AbstractOption"
  conf_heap :: "nat \<Rightarrow> (string \<times> nat) list"
  conf_next :: nat

definition options :: "store \<Rightarrow> nat \<Rightarrow> (string \<times> nat) list" where
  "options s self = conf_heap s self"

definition has_option :: "store \<Rightarrow> nat \<Rightarrow> string \<Rightarrow> bool" where
  "has_option s self n = (n \<in> set (map fst (options s self)))"

definition get_option :: "store \<Rightarrow> nat \<Rightarrow> string \<Rightarrow> error + nat" where
  "get_option s self n =
     (case map_of (options s self) n of None \<Rightarrow> Inl (KeyError n) | Some opt \<Rightarrow> Inr opt)"

definition remove_option :: "store \<Rightarrow> nat \<Rightarrow> string \<Rightarrow> (error + unit) \<times> store" where
  "remove_option s self n =
     (if n \<in> set (map fst (options s self))
      then (Inr (), s\<lparr>conf_heap := (conf_heap s)(self := filter (\<lambda>(k, opt). k \<noteq> n) (options s self))\<rparr>)
      else (Inl (KeyError n), s))"

text \<open>
  \<open>add_option\<close> raises \<open>DuplicateOptionError\<close>, a name \<open>config.py\<close> does not define:
  the raise is a \<open>NameError\<close>.
\<close>

definition add_option :: "store \<Rightarrow> nat \<Rightarrow> nat \<Rightarrow> (error + unit) \<times> store" where
  "add_option s self opt =
     (let n = name (opt_heap s opt)
      in if n \<in> set (map fst (options s self))
         then (Inl (NameError ''DuplicateOptionError''), s)
         else (Inr (), s\<lparr>conf_heap := (conf_heap s)(self := options s self @ [(n, opt)])\<rparr>))"

text \<open>
  \<open>__init__(opts)\<close>: a new, empty dict, then every item of \<open>opts\<close> (when it is neither
  \<open>None\<close> nor empty) is checked and added. \<open>opts\<close> is only read, so it is passed as the
  items it holds.
\<close>

fun init_items :: "store \<Rightarrow> nat \<Rightarrow> (string \<times> nat) list \<Rightarrow> (error + unit) \<times> store" where
  "init_items s self [] = (Inr (), s)"
| "init_items s self ((n, opt) # rest) =
     (if n \<noteq> name (opt_heap s opt) then (Inl AssertionError, s)
      else (case add_option s self opt of
              (Inl e, s') \<Rightarrow> (Inl e, s')
            | (Inr u, s') \<Rightarrow> init_items s' self rest))"

definition DefaultConfiguration_init ::
  "store \<Rightarrow> (string \<times> nat) list option \<Rightarrow> (error + nat) \<times> store" where
  "DefaultConfiguration_init s opts =
     (let self = conf_next s;
          s0 = s\<lparr>conf_heap := (conf_heap s)(self := []), conf_next := Suc self\<rparr>
      in (case opts of
            None \<Rightarrow> (Inr self, s0)
          | Some items \<Rightarrow>
              (case init_items s0 self items of
                 (Inl e, s') \<Rightarrow> (Inl e, s')
               | (Inr u, s') \<Rightarrow> (Inr self, s'))))"

text \<open>The loop of \<open>merge\<close> over \<open>other.options().iteritems()\<close>.\<close>

fun merge_items :: "store \<Rightarrow> nat \<Rightarrow> (string \<times> nat) list \<Rightarrow> bool \<Rightarrow> (error + unit) \<times> store" where
  "merge_items s ret [] allow_override = (Inr (), s)"
| "merge_items s ret ((n, opt) # rest) allow_override =
     (if has_option s ret (name (opt_heap s opt)) then
        (if allow_override then
           (case remove_option s ret (name (opt_heap s opt)) of
              (Inl e, s') \<Rightarrow> (Inl e, s')
            | (Inr u, s') \<Rightarrow>
                (case add_option s' ret opt of
                   (Inl e, s'') \<Rightarrow> (Inl e, s'')
                 | (Inr u, s'') \<Rightarrow> merge_items s'' ret rest allow_override))
         else (Inl (ConflictingMergeError (name (opt_heap s opt))), s))
      else
        (case add_option s ret opt of
           (Inl e, s') \<Rightarrow> (Inl e, s')
         | (Inr u, s') \<Rightarrow> merge_items s' ret rest allow_override))"

definition merge :: "store \<Rightarrow> nat \<Rightarrow> nat \<Rightarrow> bool \<Rightarrow> (error + nat) \<times> store" where
  "merge s self other allow_override =
     (case DefaultConfiguration_init s (Some (options s self)) of
        (Inl e, s') \<Rightarrow> (Inl e, s')
      | (Inr ret, s') \<Rightarrow>
          (case merge_items s' ret (options s' other) allow_override of
             (Inl e, s'') \<Rightarrow> (Inl e, s'')
           | (Inr u, s'') \<Rightarrow> (Inr ret, s'')))"

text \<open>
  What the interface keeps true of a configuration: the keys are distinct and each
  option is stored under its own name.
\<close>

definition names :: "store \<Rightarrow> nat \<Rightarrow> string set" where
  "names s c = set (map fst (options s c))"

definition well_formed :: "store \<Rightarrow> nat \<Rightarrow> bool" where
  "well_formed s c =
     (distinct (map fst (options s c)) \<and> list_all (\<lambda>(n, opt). n = name (opt_heap s opt)) (options s c))"

text \<open>
  The first option of \<open>other\<close>, in iteration order, whose name \<open>self\<close> has too.
\<close>

definition first_conflict :: "store \<Rightarrow> nat \<Rightarrow> nat \<Rightarrow> string option" where
  "first_conflict s self other =
     List.find (\<lambda>n. n \<in> set (map fst (options s self))) (map fst (options s other))"

text \<open>
  The configurations of \<open>test_default_configuration_merge\<close>: \<open>c1\<close> (address 0) holds
  \<open>o1\<close>, \<open>c2\<close> (address 1) holds \<open>o2\<close>, \<open>c4\<close> (address 2) holds another \<open>o2\<close> with
  short name \<open>o\<close>; the option objects are at addresses 10, 11 and 12.
\<close>

definition test_store :: store where
  "test_store =
     \<lparr>opt_heap = (\<lambda>a. AbstractOption_init ''StringOption'' '''' None)
         (10 := AbstractOption_init ''StringOption'' ''o1'' None,
          11 := AbstractOption_init ''StringOption'' ''o2'' None,
          12 := AbstractOption_init ''StringOption'' ''o2'' (Some ''o'')),
      conf_heap = (\<lambda>a. [])(0 := [(''o1'', 10)], 1 := [(''o2'', 11)], 2 := [(''o2'', 12)]),
      conf_next = 3\<rparr>"

text \<open>
  The dict after \<open>del d[n]\<close> (when \<open>n\<close> is a key) followed by \<open>d[n] = opt\<close>: what one
  round of the loop of \<open>merge\<close> does to the result when overriding is allowed.
\<close>

definition dict_put :: "(string \<times> nat) list \<Rightarrow> string \<times> nat \<Rightarrow> (string \<times> nat) list" where
  "dict_put d item = filter (\<lambda>(k, opt). k \<noteq> fst item) d @ [item]"

text \<open>
  A method call \<open>opt.set(value)\<close> on the option object at address \<open>opt\<close>: the object is
  updated in place and the call returns it.
\<close>

definition call_set ::
  "(AbstractOption \<Rightarrow> pyval \<Rightarrow> error + AbstractOption) \<Rightarrow> store \<Rightarrow> nat \<Rightarrow> pyval
     \<Rightarrow> (error + nat) \<times> store" where
  "call_set set_method s opt v =
     (case set_method (opt_heap s opt) v of
        Inl e \<Rightarrow> (Inl e, s)
      | Inr self' \<Rightarrow> (Inr opt, s\<lparr>opt_heap := (opt_heap s)(opt := self')\<rparr>))"

text \<open>
  What a step on the configuration \<open>c\<close> may change: nothing but the dict of \<open>c\<close>,
  and there it brings in no option object besides those in \<open>new\<close>.
\<close>

definition frame :: "store \<Rightarrow> nat \<Rightarrow> nat set \<Rightarrow> store \<Rightarrow> bool" where
  "frame s c new s' =
     (opt_heap s' = opt_heap s \<and> conf_next s' = conf_next s
      \<and> (\<forall>c'. c' \<noteq> c \<longrightarrow> conf_heap s' c' = conf_heap s c')
      \<and> snd ` set (conf_heap s' c) \<subseteq> snd ` set (conf_heap s c) \<union> new)"

section \<open>config.py: the names of the module\<close>

text \<open>
  What \<open>shastity.config\<close> binds at module level: the two \<open>__future__\<close> imports and the
  classes, in the order of the file, then the names the interpreter gives every module.
  Reading any other attribute of the module, as \<open>config.BoolOption\<close> and
  \<open>config.OptionParseError\<close> of \<open>test_bool_option\<close> do, raises \<open>AttributeError\<close>.
\<close>

definition config_names :: "string list" where
  "config_names =
     [''absolute_import'', ''with_statement'',
      ''RequiredOptionMissingError'', ''BadOptionValueType'', ''ConflictingMergeError'',
      ''Option'', ''AbstractOption'', ''StringOption'', ''IntOption'',
      ''Configuration'', ''DefaultConfiguration'',
      ''__name__'', ''__doc__'', ''__file__'', ''__package__'', ''__builtins__'']"

definition config_getattr :: "string \<Rightarrow> error + string" where
  "config_getattr n = (if n \<in> set config_names then Inr n else Inl AttributeError)"

section \<open>TemporaryDirectory: cleaning up once\<close>

lemma close_stale [simp]: "td_stale (fst (snd (TemporaryDirectory_close rm self w)))"
  by (simp add: TemporaryDirectory_close_def Let_def split: prod.splits)

lemma close_path [simp]: "td_path (fst (snd (TemporaryDirectory_close rm self w))) = td_path self"
  by (simp add: TemporaryDirectory_close_def Let_def split: prod.splits)

lemma close_fs [simp]: "td_fs (fst (snd (TemporaryDirectory_close rm self w))) = td_fs self"
  by (simp add: TemporaryDirectory_close_def Let_def split: prod.splits)

lemma close_when_stale: "td_stale self \<Longrightarrow> TemporaryDirectory_close rm self w = (None, self, w)"
  by (simp add: TemporaryDirectory_close_def)

lemma close_logged_calls:
  "fst (snd (snd (TemporaryDirectory_close (logged rm) self (calls, w)))) =
     (if td_stale self then calls else calls @ [(td_fs self, td_path self)])"
  by (simp add: TemporaryDirectory_close_def logged_def Let_def split: prod.splits)

lemma td_do_stale: "td_stale (fst st) \<Longrightarrow> td_do rm c st = st"
  by (cases st; cases c) (simp_all add: close_when_stale TemporaryDirectory_exit_def TemporaryDirectory_enter_def)

lemma td_run_stale: "td_stale (fst st) \<Longrightarrow> td_run rm cs st = st"
  by (induction cs arbitrary: st) (simp_all add: td_do_stale)

lemma td_do_fresh:
  "\<not> td_stale self \<Longrightarrow>
   td_fs (fst (td_do (logged rm) c (self, calls, w))) = td_fs self \<and>
   td_path (fst (td_do (logged rm) c (self, calls, w))) = td_path self \<and>
   td_stale (fst (td_do (logged rm) c (self, calls, w))) = closes c \<and>
   fst (snd (td_do (logged rm) c (self, calls, w))) =
     (if closes c then calls @ [(td_fs self, td_path self)] else calls)"
  by (cases c) (simp_all add: TemporaryDirectory_exit_def TemporaryDirectory_enter_def close_logged_calls
      TemporaryDirectory_close_def Let_def logged_def split: prod.splits)

lemma td_run_calls:
  "\<not> td_stale self \<Longrightarrow>
   fst (snd (td_run (logged rm) cs (self, calls, w))) =
     (if \<exists>c\<in>set cs. closes c then calls @ [(td_fs self, td_path self)] else calls)"
proof (induction cs arbitrary: self calls w)
  case Nil
  then show ?case by simp
next
  case (Cons c cs)
  obtain self' calls' w' where st: "td_do (logged rm) c (self, calls, w) = (self', calls', w')"
    by (metis prod_cases3)
  from td_do_fresh [OF Cons.prems, of rm c calls w] st
  have f: "td_fs self' = td_fs self" "td_path self' = td_path self" "td_stale self' = closes c"
    "calls' = (if closes c then calls @ [(td_fs self, td_path self)] else calls)"
    by simp_all
  show ?case
  proof (cases "closes c")
    case True
    then have "td_stale (fst (self', calls', w'))" using f by simp
    then have "td_run (logged rm) cs (self', calls', w') = (self', calls', w')"
      by (rule td_run_stale)
    then show ?thesis using True f st by simp
  next
    case False
    then have "\<not> td_stale self'" using f by simp
    from Cons.IH [OF this, of calls' w'] show ?thesis using False f st by simp
  qed
qed



text \<open>
  C3. Over its whole life (any sequence of \<open>__enter__\<close>, \<open>__exit__\<close>, \<open>close\<close> and
  reads of \<open>fs\<close> and \<open>path\<close> on a new handle) a temporary directory calls \<open>rmtree\<close>
  on its path exactly once if the sequence holds an exit (with or without an exception)
  or a close, and never otherwise; a close on a stale handle changes nothing and raises
  nothing; after a close, and after whatever calls follow it, reading \<open>path\<close> or \<open>fs\<close>
  raises \<open>StaleTemporaryDirectory\<close>; a stale handle stays stale. This holds whatever
  \<open>rmtree\<close> does, also when it raises.
\<close>

theorem TemporaryDirectory_rmtree_exactly_once:
  "fst (snd (td_run (logged rmtree) cs (TemporaryDirectory_init fs p, [], w))) =
     (if \<exists>c\<in>set cs. closes c then [(fs, p)] else [])
   \<and> (td_stale self \<longrightarrow> TemporaryDirectory_close (logged rmtree) self lw = (None, self, lw))
   \<and> TemporaryDirectory_get_path (fst (td_run rmtree cs (snd (TemporaryDirectory_close rmtree self w))))
       = Inl (StaleTemporaryDirectory (td_path self))
   \<and> TemporaryDirectory_get_fs (fst (td_run rmtree cs (snd (TemporaryDirectory_close rmtree self w))))
       = Inl (StaleTemporaryDirectory (td_path self))
   \<and> (td_stale self \<longrightarrow> td_stale (fst (td_do rmtree c (self, w))))"
proof -
  have a: "fst (snd (td_run (logged rmtree) cs (TemporaryDirectory_init fs p, [], w))) =
     (if \<exists>c\<in>set cs. closes c then [(fs, p)] else [])"
    using td_run_calls [of "TemporaryDirectory_init fs p" rmtree cs "[]" w]
    by (simp add: TemporaryDirectory_init_def)
  have b: "td_stale self \<longrightarrow> TemporaryDirectory_close (logged rmtree) self lw = (None, self, lw)"
    by (simp add: close_when_stale)
  let ?st = "snd (TemporaryDirectory_close rmtree self w)"
  have "td_stale (fst ?st)" by simp
  then have r: "td_run rmtree cs ?st = ?st" by (rule td_run_stale)
  have c: "TemporaryDirectory_get_path (fst (td_run rmtree cs ?st)) = Inl (StaleTemporaryDirectory (td_path self))"
    unfolding r by (simp add: TemporaryDirectory_get_path_def)
  have d: "TemporaryDirectory_get_fs (fst (td_run rmtree cs ?st)) = Inl (StaleTemporaryDirectory (td_path self))"
    unfolding r by (simp add: TemporaryDirectory_get_fs_def)
  have e: "td_stale self \<longrightarrow> td_stale (fst (td_do rmtree c (self, w)))"
    using td_do_stale [of "(self, w)" rmtree c] by simp
  from a b c d e show ?thesis by blast
qed

theorem TemporaryDirectory_rmtree_exactly_once_witness:
  "fst (snd (td_run (logged MemoryFileSystem_rmtree) [Enter, ReadPath, Exit PyNone, Close]
       (TemporaryDirectory_init () ''/tmp/x'', [], ()))) = [((), ''/tmp/x'')]
   \<and> td_stale \<lparr>td_fs = (), td_path = ''/tmp/x'', td_stale = True\<rparr>
   \<and> TemporaryDirectory_close (logged MemoryFileSystem_rmtree)
        \<lparr>td_fs = (), td_path = ''/tmp/x'', td_stale = True\<rparr> ([((), ''/tmp/x'')], ())
       = (None, \<lparr>td_fs = (), td_path = ''/tmp/x'', td_stale = True\<rparr>, ([((), ''/tmp/x'')], ()))
   \<and> td_stale (fst (td_do MemoryFileSystem_rmtree Close
        (\<lparr>td_fs = (), td_path = ''/tmp/x'', td_stale = True\<rparr>, ())))"
  using TemporaryDirectory_rmtree_exactly_once [of MemoryFileSystem_rmtree
      "[Enter, ReadPath, Exit PyNone, Close]" "()" "''/tmp/x''" "()"
      "\<lparr>td_fs = (), td_path = ''/tmp/x'', td_stale = True\<rparr>" "([((), ''/tmp/x'')], ())" Close]
  by simp

text \<open>
  C10. \<open>close\<close> marks the handle stale before it calls \<open>rmtree\<close>: when \<open>rmtree\<close>
  raises, \<open>close\<close> raises that error and the handle is stale all the same, so reading
  \<open>path\<close> or \<open>fs\<close> raises \<open>StaleTemporaryDirectory\<close>, and a second \<open>close\<close> returns
  without calling \<open>rmtree\<close> again: the log of calls holds the one failed call only.
\<close>

theorem TemporaryDirectory_close_stale_before_rmtree:
  "\<not> td_stale self \<and> fst (rmtree (td_fs self) (td_path self) w) = Some e \<longrightarrow>
     fst (TemporaryDirectory_close rmtree self w) = Some e
   \<and> td_stale (fst (snd (TemporaryDirectory_close rmtree self w)))
   \<and> TemporaryDirectory_get_path (fst (snd (TemporaryDirectory_close rmtree self w)))
       = Inl (StaleTemporaryDirectory (td_path self))
   \<and> TemporaryDirectory_get_fs (fst (snd (TemporaryDirectory_close rmtree self w)))
       = Inl (StaleTemporaryDirectory (td_path self))
   \<and> TemporaryDirectory_close (logged rmtree)
        (fst (snd (TemporaryDirectory_close (logged rmtree) self (calls, w))))
        (snd (snd (TemporaryDirectory_close (logged rmtree) self (calls, w))))
       = (None, snd (TemporaryDirectory_close (logged rmtree) self (calls, w)))
   \<and> fst (snd (snd (TemporaryDirectory_close (logged rmtree) self (calls, w))))
       = calls @ [(td_fs self, td_path self)]"
  by (auto simp add: TemporaryDirectory_close_def TemporaryDirectory_get_path_def
      TemporaryDirectory_get_fs_def logged_def Let_def split: prod.splits)

theorem TemporaryDirectory_close_stale_before_rmtree_witness:
  "\<not> td_stale (TemporaryDirectory_init () ''/tmp/x'')
   \<and> fst (MemoryFileSystem_rmtree () ''/tmp/x'' ()) = Some NotImplementedError
   \<and> fst (TemporaryDirectory_close MemoryFileSystem_rmtree (TemporaryDirectory_init () ''/tmp/x'') ())
       = Some NotImplementedError
   \<and> td_stale (fst (snd (TemporaryDirectory_close MemoryFileSystem_rmtree
        (TemporaryDirectory_init () ''/tmp/x'') ())))
   \<and> fst (snd (snd (TemporaryDirectory_close (logged MemoryFileSystem_rmtree)
        (TemporaryDirectory_init () ''/tmp/x'') ([], ())))) = [((), ''/tmp/x'')]"
  using TemporaryDirectory_close_stale_before_rmtree [of "TemporaryDirectory_init () ''/tmp/x''"
      MemoryFileSystem_rmtree "()" NotImplementedError "[]"]
  by (simp add: TemporaryDirectory_init_def MemoryFileSystem_rmtree_def)

section \<open>MemoryFileSystem: what mkdir and exists do\<close>

lemma str_split_not_empty: "str_split sep s \<noteq> []"
  by (induction s) (auto split: list.splits)

lemma rec_never_returns_node: "comps \<noteq> [] \<Longrightarrow> rec cur comps \<noteq> Inr (Some d)"
  by (cases comps) (auto split: node.splits option.splits sum.splits)

text \<open>
  Whatever the tree and the path, \<open>mkdir\<close> raises: the lookup either raises or yields
  \<open>None\<close>, on which the membership test fails.
\<close>

lemma MemoryFileSystem_mkdir_always_raises: "isl (MemoryFileSystem_mkdir tree path)"
  using rec_never_returns_node [OF str_split_not_empty, of tree "CHR ''/''" path]
  by (auto simp: MemoryFileSystem_mkdir_def lookup_def split: sum.splits option.splits prod.splits)

text \<open>
  C4. The claim: on a fresh MemoryFileSystem \<open>mkdir("tmp/foo")\<close> succeeds and creates an
  empty directory, and a repeated call fails with AlreadyExists. The code: the first
  call looks up \<open>tmp/foo\<close> itself, does not find \<open>foo\<close> under \<open>tmp\<close>, and raises
  \<open>NameError\<close> while building the \<open>ENOENT\<close> error; the tree stays as it was, so the
  second call does the same. A path that does resolve, such as \<open>x/tmp\<close> under a
  directory \<open>x\<close>, ends in \<open>TypeError\<close>.
\<close>

theorem MemoryFileSystem_mkdir_tmp_foo_raises:
  "MemoryFileSystem_mkdir MemoryFileSystem_init ''tmp/foo'' = Inl (NameError ''errno'')
   \<and> MemoryFileSystem_mkdir (Dir [(''x'', Dir [(''tmp'', Dir [])])]) ''x/tmp'' = Inl TypeError"
  by (simp add: MemoryFileSystem_mkdir_def MemoryFileSystem_init_def lookup_def
      split_slash_agnostically_def os_path_split_def)

text \<open>
  C5. The claim: \<open>exists\<close> of the memory file system depends on the in-memory tree only.
  The code: the answer is the operating system's. With the same fresh tree, a path the
  tree does not hold exists when the OS has it, and \<open>tmp\<close>, which the tree holds, does
  not exist when the OS lacks it.
\<close>

theorem MemoryFileSystem_exists_reads_os:
  "MemoryFileSystem_exists (\<lambda>p. True) MemoryFileSystem_init ''no/such/entry'' = True
   \<and> MemoryFileSystem_exists (\<lambda>p. False) MemoryFileSystem_init ''no/such/entry'' = False
   \<and> MemoryFileSystem_exists (\<lambda>p. False) MemoryFileSystem_init ''tmp'' = False"
  by (simp add: MemoryFileSystem_exists_def)

section \<open>DefaultConfiguration: merge\<close>

lemma store_upd_same [simp]: "s\<lparr>conf_heap := (conf_heap s)(c := conf_heap s c)\<rparr> = s"
  by simp

lemma add_option_fresh:
  "name (opt_heap s opt) \<notin> set (map fst (conf_heap s c)) \<Longrightarrow>
   add_option s c opt =
     (Inr (), s\<lparr>conf_heap := (conf_heap s)(c := conf_heap s c @ [(name (opt_heap s opt), opt)])\<rparr>)"
  by (simp add: add_option_def options_def Let_def)

lemma add_option_dup:
  "name (opt_heap s opt) \<in> set (map fst (conf_heap s c)) \<Longrightarrow>
   add_option s c opt = (Inl (NameError ''DuplicateOptionError''), s)"
  by (simp add: add_option_def options_def Let_def)

lemma remove_option_present:
  "n \<in> set (map fst (conf_heap s c)) \<Longrightarrow>
   remove_option s c n =
     (Inr (), s\<lparr>conf_heap := (conf_heap s)(c := filter (\<lambda>(k, opt). k \<noteq> n) (conf_heap s c))\<rparr>)"
  by (simp add: remove_option_def options_def)

lemma filter_key_notin: "n \<notin> set (map fst (filter (\<lambda>(k, opt). k \<noteq> n) d))"
  by (induction d) auto

lemma filter_key_absent: "n \<notin> set (map fst d) \<Longrightarrow> filter (\<lambda>(k, opt). k \<noteq> n) d = d"
  by (induction d) auto


lemma init_items_ok:
  "distinct (map fst items) \<Longrightarrow>
   list_all (\<lambda>(n, opt). n = name (opt_heap s opt)) items \<Longrightarrow>
   set (map fst items) \<inter> set (map fst (conf_heap s c)) = {} \<Longrightarrow>
   fst (init_items s c items) = Inr ()
   \<and> opt_heap (snd (init_items s c items)) = opt_heap s
   \<and> conf_next (snd (init_items s c items)) = conf_next s
   \<and> conf_heap (snd (init_items s c items)) = (conf_heap s)(c := conf_heap s c @ items)"
proof (induction items arbitrary: s)
  case Nil
  then show ?case by simp
next
  case (Cons item items)
  obtain n opt where item: "item = (n, opt)" by (cases item)
  let ?s' = "s\<lparr>conf_heap := (conf_heap s)(c := conf_heap s c @ [(n, opt)])\<rparr>"
  from Cons.prems item have n: "n = name (opt_heap s opt)" and notin: "n \<notin> set (map fst (conf_heap s c))"
    by auto
  have add: "add_option s c opt = (Inr (), ?s')"
    using add_option_fresh [of s opt c] n notin by simp
  have step: "init_items s c ((n, opt) # items) = init_items ?s' c items"
    using n add by simp
  have "fst (init_items ?s' c items) = Inr ()
   \<and> opt_heap (snd (init_items ?s' c items)) = opt_heap ?s'
   \<and> conf_next (snd (init_items ?s' c items)) = conf_next ?s'
   \<and> conf_heap (snd (init_items ?s' c items)) = (conf_heap ?s')(c := conf_heap ?s' c @ items)"
    using Cons.prems item by (intro Cons.IH) auto
  then show ?case unfolding item step by (simp add: fun_eq_iff)
qed

lemma init_ok:
  assumes "distinct (map fst items)" "list_all (\<lambda>(n, opt). n = name (opt_heap s opt)) items"
  shows "fst (DefaultConfiguration_init s (Some items)) = Inr (conf_next s)
   \<and> opt_heap (snd (DefaultConfiguration_init s (Some items))) = opt_heap s
   \<and> conf_next (snd (DefaultConfiguration_init s (Some items))) = Suc (conf_next s)
   \<and> conf_heap (snd (DefaultConfiguration_init s (Some items))) = (conf_heap s)(conf_next s := items)"
proof -
  let ?s0 = "s\<lparr>conf_heap := (conf_heap s)(conf_next s := []), conf_next := Suc (conf_next s)\<rparr>"
  have "fst (init_items ?s0 (conf_next s) items) = Inr ()
   \<and> opt_heap (snd (init_items ?s0 (conf_next s) items)) = opt_heap ?s0
   \<and> conf_next (snd (init_items ?s0 (conf_next s) items)) = conf_next ?s0
   \<and> conf_heap (snd (init_items ?s0 (conf_next s) items)) = (conf_heap ?s0)(conf_next s := conf_heap ?s0 (conf_next s) @ items)"
    using assms by (intro init_items_ok) auto
  then show ?thesis
    by (auto simp add: DefaultConfiguration_init_def Let_def split: prod.splits sum.splits)
qed


lemma dict_put_keys: "set (map fst (dict_put d item)) = insert (fst item) (set (map fst d))"
  by (induction d) (auto simp: dict_put_def)

lemma dict_put_distinct: "distinct (map fst d) \<Longrightarrow> distinct (map fst (dict_put d item))"
  by (induction d) (auto simp: dict_put_def)

lemma dict_put_map_of: "map_of (dict_put d item) = (map_of d)(fst item \<mapsto> snd item)"
proof
  fix n
  have a: "map_of (filter (\<lambda>(k', opt). k' \<noteq> k) d) n = (if n = k then None else map_of d n)" for k
    by (induction d) auto
  show "map_of (dict_put d item) n = ((map_of d)(fst item \<mapsto> snd item)) n"
    by (cases item) (auto simp add: dict_put_def map_add_def a split: option.splits)
qed

lemma dict_put_absent: "fst item \<notin> set (map fst d) \<Longrightarrow> dict_put d item = d @ [item]"
  by (cases item) (simp add: dict_put_def filter_key_absent)

lemma foldl_put_keys: "set (map fst (foldl dict_put d items)) = set (map fst d) \<union> set (map fst items)"
proof (induction items arbitrary: d)
  case Nil
  then show ?case by simp
next
  case (Cons item items)
  have "set (map fst (foldl dict_put (dict_put d item) items)) =
      set (map fst (dict_put d item)) \<union> set (map fst items)"
    by (rule Cons.IH)
  then show ?case unfolding dict_put_keys by auto
qed

lemma foldl_put_distinct: "distinct (map fst d) \<Longrightarrow> distinct (map fst (foldl dict_put d items))"
  by (induction items arbitrary: d) (auto simp: dict_put_distinct)

lemma foldl_put_other: "n \<notin> set (map fst items) \<Longrightarrow> map_of (foldl dict_put d items) n = map_of d n"
  by (induction items arbitrary: d) (auto simp: dict_put_map_of)

lemma foldl_put_map_of:
  "distinct (map fst items) \<Longrightarrow> (n, opt) \<in> set items \<Longrightarrow> map_of (foldl dict_put d items) n = Some opt"
proof (induction items arbitrary: d)
  case Nil
  then show ?case by simp
next
  case (Cons item items)
  show ?case
  proof (cases "item = (n, opt)")
    case True
    then have "n \<notin> set (map fst items)" using Cons.prems by auto
    then have "map_of (foldl dict_put (dict_put d item) items) n = map_of (dict_put d item) n"
      by (rule foldl_put_other)
    then show ?thesis using True by (simp add: dict_put_map_of)
  next
    case False
    then show ?thesis using Cons by auto
  qed
qed

lemma foldl_put_disjoint:
  "distinct (map fst items) \<Longrightarrow> set (map fst items) \<inter> set (map fst d) = {} \<Longrightarrow>
   foldl dict_put d items = d @ items"
proof (induction items arbitrary: d)
  case Nil
  then show ?case by simp
next
  case (Cons item items)
  have "dict_put d item = d @ [item]" using Cons.prems by (intro dict_put_absent) auto
  moreover have "foldl dict_put (d @ [item]) items = (d @ [item]) @ items"
    using Cons.prems by (intro Cons.IH) auto
  ultimately show ?case by simp
qed


lemma merge_items_override_step:
  assumes "n = name (opt_heap s opt)"
  shows "merge_items s ret ((n, opt) # rest) True =
     merge_items (s\<lparr>conf_heap := (conf_heap s)(ret := dict_put (conf_heap s ret) (n, opt))\<rparr>) ret rest True"
proof (cases "n \<in> set (map fst (conf_heap s ret))")
  case True
  let ?s1 = "s\<lparr>conf_heap := (conf_heap s)(ret := filter (\<lambda>(k, opt). k \<noteq> n) (conf_heap s ret))\<rparr>"
  have rm: "remove_option s ret n = (Inr (), ?s1)"
    using True by (rule remove_option_present)
  have "name (opt_heap ?s1 opt) \<notin> set (map fst (conf_heap ?s1 ret))"
    using assms filter_key_notin [of n "conf_heap s ret"] by simp
  then have "add_option ?s1 ret opt =
      (Inr (), ?s1\<lparr>conf_heap := (conf_heap ?s1)(ret := conf_heap ?s1 ret @ [(name (opt_heap ?s1 opt), opt)])\<rparr>)"
    by (rule add_option_fresh)
  then have add: "add_option ?s1 ret opt =
      (Inr (), s\<lparr>conf_heap := (conf_heap s)(ret := dict_put (conf_heap s ret) (n, opt))\<rparr>)"
    using assms by (simp add: dict_put_def)
  show ?thesis using True assms rm add by (simp add: has_option_def options_def)
next
  case False
  then have "add_option s ret opt =
      (Inr (), s\<lparr>conf_heap := (conf_heap s)(ret := conf_heap s ret @ [(name (opt_heap s opt), opt)])\<rparr>)"
    using assms by (intro add_option_fresh) simp
  then have add: "add_option s ret opt =
      (Inr (), s\<lparr>conf_heap := (conf_heap s)(ret := dict_put (conf_heap s ret) (n, opt))\<rparr>)"
    using assms False by (simp add: dict_put_absent)
  show ?thesis using False assms add by (simp add: has_option_def options_def)
qed

lemma merge_items_override:
  "list_all (\<lambda>(n, opt). n = name (opt_heap s opt)) items \<Longrightarrow>
   fst (merge_items s ret items True) = Inr ()
   \<and> opt_heap (snd (merge_items s ret items True)) = opt_heap s
   \<and> conf_next (snd (merge_items s ret items True)) = conf_next s
   \<and> conf_heap (snd (merge_items s ret items True)) =
       (conf_heap s)(ret := foldl dict_put (conf_heap s ret) items)"
proof (induction items arbitrary: s)
  case Nil
  then show ?case by simp
next
  case (Cons item items)
  obtain n opt where item: "item = (n, opt)" by (cases item)
  let ?s' = "s\<lparr>conf_heap := (conf_heap s)(ret := dict_put (conf_heap s ret) (n, opt))\<rparr>"
  from Cons.prems item have n: "n = name (opt_heap s opt)" by simp
  have step: "merge_items s ret ((n, opt) # items) True = merge_items ?s' ret items True"
    using n by (rule merge_items_override_step)
  have "fst (merge_items ?s' ret items True) = Inr ()
   \<and> opt_heap (snd (merge_items ?s' ret items True)) = opt_heap ?s'
   \<and> conf_next (snd (merge_items ?s' ret items True)) = conf_next ?s'
   \<and> conf_heap (snd (merge_items ?s' ret items True)) =
       (conf_heap ?s')(ret := foldl dict_put (conf_heap ?s' ret) items)"
    using Cons.prems item by (intro Cons.IH) simp
  then show ?case unfolding item step by (simp add: fun_eq_iff)
qed

text \<open>No name of the items is a key of the result yet: every round only adds.\<close>

lemma merge_items_disjoint_step:
  assumes "n = name (opt_heap s opt)" "n \<notin> set (map fst (conf_heap s ret))"
  shows "merge_items s ret ((n, opt) # rest) b =
     merge_items (s\<lparr>conf_heap := (conf_heap s)(ret := conf_heap s ret @ [(n, opt)])\<rparr>) ret rest b"
proof -
  have "add_option s ret opt =
      (Inr (), s\<lparr>conf_heap := (conf_heap s)(ret := conf_heap s ret @ [(name (opt_heap s opt), opt)])\<rparr>)"
    using assms by (intro add_option_fresh) simp
  then show ?thesis using assms by (simp add: has_option_def options_def)
qed

lemma merge_items_disjoint:
  "distinct (map fst items) \<Longrightarrow>
   list_all (\<lambda>(n, opt). n = name (opt_heap s opt)) items \<Longrightarrow>
   set (map fst items) \<inter> set (map fst (conf_heap s ret)) = {} \<Longrightarrow>
   fst (merge_items s ret items b) = Inr ()
   \<and> opt_heap (snd (merge_items s ret items b)) = opt_heap s
   \<and> conf_next (snd (merge_items s ret items b)) = conf_next s
   \<and> conf_heap (snd (merge_items s ret items b)) = (conf_heap s)(ret := conf_heap s ret @ items)"
proof (induction items arbitrary: s)
  case Nil
  then show ?case by simp
next
  case (Cons item items)
  obtain n opt where item: "item = (n, opt)" by (cases item)
  let ?s' = "s\<lparr>conf_heap := (conf_heap s)(ret := conf_heap s ret @ [(n, opt)])\<rparr>"
  from Cons.prems item have n: "n = name (opt_heap s opt)" "n \<notin> set (map fst (conf_heap s ret))"
    by auto
  have step: "merge_items s ret ((n, opt) # items) b = merge_items ?s' ret items b"
    using n by (rule merge_items_disjoint_step)
  have "fst (merge_items ?s' ret items b) = Inr ()
   \<and> opt_heap (snd (merge_items ?s' ret items b)) = opt_heap ?s'
   \<and> conf_next (snd (merge_items ?s' ret items b)) = conf_next ?s'
   \<and> conf_heap (snd (merge_items ?s' ret items b)) = (conf_heap ?s')(ret := conf_heap ?s' ret @ items)"
    using Cons.prems item by (intro Cons.IH) auto
  then show ?case unfolding item step by (simp add: fun_eq_iff)
qed

text \<open>Without overriding, the loop stops at the first item whose name is a key.\<close>

lemma merge_items_conflict:
  "distinct (map fst items) \<Longrightarrow>
   list_all (\<lambda>(n, opt). n = name (opt_heap s opt)) items \<Longrightarrow>
   List.find (\<lambda>n. n \<in> set (map fst (conf_heap s ret))) (map fst items) = Some n \<Longrightarrow>
   fst (merge_items s ret items False) = Inl (ConflictingMergeError n)"
proof (induction items arbitrary: s)
  case Nil
  then show ?case by simp
next
  case (Cons item items)
  obtain k opt where item: "item = (k, opt)" by (cases item)
  from Cons.prems item have k: "k = name (opt_heap s opt)" by simp
  show ?case
  proof (cases "k \<in> set (map fst (conf_heap s ret))")
    case True
    then have "n = k" using Cons.prems(3) item by simp
    then show ?thesis using True k item by (simp add: has_option_def options_def)
  next
    case False
    let ?s' = "s\<lparr>conf_heap := (conf_heap s)(ret := conf_heap s ret @ [(k, opt)])\<rparr>"
    have step: "merge_items s ret ((k, opt) # items) False = merge_items ?s' ret items False"
      using k False by (rule merge_items_disjoint_step)
    have knot: "k \<notin> set (map fst items)" using Cons.prems(1) item by simp
    have "List.find (\<lambda>n. n \<in> set (map fst (conf_heap ?s' ret))) (map fst items)
        = List.find (\<lambda>n. n \<in> set (map fst (conf_heap s ret))) (map fst items)"
      using knot by (intro find_cong) auto
    also have "\<dots> = Some n" using Cons.prems(3) item False by simp
    finally have "fst (merge_items ?s' ret items False) = Inl (ConflictingMergeError n)"
      using Cons.prems item by (intro Cons.IH) auto
    then show ?thesis unfolding item step .
  qed
qed


lemma merge_after_init:
  assumes "well_formed s self" "other \<noteq> conf_next s"
  defines "s1 \<equiv> snd (DefaultConfiguration_init s (Some (conf_heap s self)))"
  shows "merge s self other b =
       (case merge_items s1 (conf_next s) (conf_heap s other) b of
          (Inl e, s'') \<Rightarrow> (Inl e, s'')
        | (Inr u, s'') \<Rightarrow> (Inr (conf_next s), s''))"
    and "opt_heap s1 = opt_heap s"
    and "conf_next s1 = Suc (conf_next s)"
    and "conf_heap s1 = (conf_heap s)(conf_next s := conf_heap s self)"
proof -
  have i: "fst (DefaultConfiguration_init s (Some (conf_heap s self))) = Inr (conf_next s)
   \<and> opt_heap (snd (DefaultConfiguration_init s (Some (conf_heap s self)))) = opt_heap s
   \<and> conf_next (snd (DefaultConfiguration_init s (Some (conf_heap s self)))) = Suc (conf_next s)
   \<and> conf_heap (snd (DefaultConfiguration_init s (Some (conf_heap s self))))
       = (conf_heap s)(conf_next s := conf_heap s self)"
    using assms(1) by (intro init_ok) (simp_all add: well_formed_def options_def)
  show "opt_heap s1 = opt_heap s" "conf_next s1 = Suc (conf_next s)"
    "conf_heap s1 = (conf_heap s)(conf_next s := conf_heap s self)"
    using i by (simp_all add: s1_def)
  obtain r0 s0 where p: "DefaultConfiguration_init s (Some (conf_heap s self)) = (r0, s0)"
    by (cases "DefaultConfiguration_init s (Some (conf_heap s self))")
  with i have r0: "r0 = Inr (conf_next s)" and s0: "s0 = s1"
    and h: "conf_heap s0 = (conf_heap s)(conf_next s := conf_heap s self)"
    by (simp_all add: s1_def)
  have "conf_heap s0 other = conf_heap s other" using h assms(2) by simp
  then show "merge s self other b =
       (case merge_items s1 (conf_next s) (conf_heap s other) b of
          (Inl e, s'') \<Rightarrow> (Inl e, s'')
        | (Inr u, s'') \<Rightarrow> (Inr (conf_next s), s''))"
    using p r0 s0 by (simp add: merge_def options_def)
qed


lemma merge_conflict:
  assumes "well_formed s self" "well_formed s other" "other \<noteq> conf_next s"
    and "first_conflict s self other = Some n"
  shows "fst (merge s self other False) = Inl (ConflictingMergeError n)"
proof -
  let ?s1 = "snd (DefaultConfiguration_init s (Some (conf_heap s self)))"
  note m = merge_after_init [OF assms(1) assms(3)]
  have "fst (merge_items ?s1 (conf_next s) (conf_heap s other) False) = Inl (ConflictingMergeError n)"
    using assms(2) assms(4)
    by (intro merge_items_conflict) (simp_all add: m well_formed_def options_def first_conflict_def)
  then show ?thesis unfolding m(1) by (auto split: prod.splits sum.splits)
qed

lemma merge_override:
  assumes "well_formed s self" "well_formed s other" "other \<noteq> conf_next s"
  shows "fst (merge s self other True) = Inr (conf_next s)
   \<and> opt_heap (snd (merge s self other True)) = opt_heap s
   \<and> conf_next (snd (merge s self other True)) = Suc (conf_next s)
   \<and> conf_heap (snd (merge s self other True)) =
       (conf_heap s)(conf_next s := foldl dict_put (conf_heap s self) (conf_heap s other))"
proof -
  let ?s1 = "snd (DefaultConfiguration_init s (Some (conf_heap s self)))"
  note m = merge_after_init [OF assms(1) assms(3)]
  have "fst (merge_items ?s1 (conf_next s) (conf_heap s other) True) = Inr ()
   \<and> opt_heap (snd (merge_items ?s1 (conf_next s) (conf_heap s other) True)) = opt_heap ?s1
   \<and> conf_next (snd (merge_items ?s1 (conf_next s) (conf_heap s other) True)) = conf_next ?s1
   \<and> conf_heap (snd (merge_items ?s1 (conf_next s) (conf_heap s other) True)) =
       (conf_heap ?s1)(conf_next s := foldl dict_put (conf_heap ?s1 (conf_next s)) (conf_heap s other))"
    using assms(2) by (intro merge_items_override) (simp add: m well_formed_def options_def)
  then show ?thesis unfolding m(1) by (auto simp add: m split: prod.splits sum.splits)
qed

lemma merge_disjoint:
  assumes "well_formed s self" "well_formed s other" "other \<noteq> conf_next s"
    and "names s self \<inter> names s other = {}"
  shows "fst (merge s self other b) = Inr (conf_next s)
   \<and> opt_heap (snd (merge s self other b)) = opt_heap s
   \<and> conf_next (snd (merge s self other b)) = Suc (conf_next s)
   \<and> conf_heap (snd (merge s self other b)) =
       (conf_heap s)(conf_next s := conf_heap s self @ conf_heap s other)"
proof -
  let ?s1 = "snd (DefaultConfiguration_init s (Some (conf_heap s self)))"
  note m = merge_after_init [OF assms(1) assms(3)]
  have "fst (merge_items ?s1 (conf_next s) (conf_heap s other) b) = Inr ()
   \<and> opt_heap (snd (merge_items ?s1 (conf_next s) (conf_heap s other) b)) = opt_heap ?s1
   \<and> conf_next (snd (merge_items ?s1 (conf_next s) (conf_heap s other) b)) = conf_next ?s1
   \<and> conf_heap (snd (merge_items ?s1 (conf_next s) (conf_heap s other) b)) =
       (conf_heap ?s1)(conf_next s := conf_heap ?s1 (conf_next s) @ conf_heap s other)"
    using assms(2) assms(4)
    by (intro merge_items_disjoint) (auto simp add: m well_formed_def options_def names_def)
  then show ?thesis unfolding m(1) by (auto simp add: m split: prod.splits sum.splits)
qed

lemma first_conflict_exists:
  "names s self \<inter> names s other \<noteq> {} \<Longrightarrow> \<exists>n. first_conflict s self other = Some n"
  by (cases "first_conflict s self other")
    (force simp add: first_conflict_def names_def options_def find_None_iff)+


lemmas test_store_eval =
  test_store_def merge_def DefaultConfiguration_init_def options_def add_option_def
  remove_option_def has_option_def get_option_def name_def AbstractOption_init_def
  well_formed_def names_def first_conflict_def Let_def

text \<open>
  C1. Two well-formed configurations that exist in the store. If they share an option
  name, \<open>merge\<close> without overriding raises \<open>ConflictingMergeError\<close> with the name of
  the first option of \<open>other\<close>, in iteration order, that \<open>self\<close> has too; \<open>merge\<close> with
  overriding returns a configuration that holds, under every shared name, the option
  object of \<open>other\<close>, unchanged. With either flag, when \<open>merge\<close> returns, the names of
  the result are those of \<open>self\<close> together with those of \<open>other\<close>.
\<close>

theorem merge_shared_names:
  assumes "well_formed s self" "well_formed s other" "self < conf_next s" "other < conf_next s"
  shows "(names s self \<inter> names s other \<noteq> {} \<longrightarrow>
           (\<exists>n. first_conflict s self other = Some n
              \<and> fst (merge s self other False) = Inl (ConflictingMergeError n))
         \<and> (\<exists>ret. fst (merge s self other True) = Inr ret
              \<and> (\<forall>(n, opt) \<in> set (options s other). n \<in> names s self \<longrightarrow>
                    get_option (snd (merge s self other True)) ret n = Inr opt
                  \<and> opt_heap (snd (merge s self other True)) opt = opt_heap s opt)))
     \<and> (\<forall>ret. fst (merge s self other allow_override) = Inr ret \<longrightarrow>
           names (snd (merge s self other allow_override)) ret = names s self \<union> names s other)"
proof -
  have ne: "other \<noteq> conf_next s" using assms(4) by simp
  note ov = merge_override [OF assms(1) assms(2) ne]
  have d_other: "distinct (map fst (conf_heap s other))"
    using assms(2) by (simp add: well_formed_def options_def)
  have a: "\<exists>n. first_conflict s self other = Some n
       \<and> fst (merge s self other False) = Inl (ConflictingMergeError n)"
    if "names s self \<inter> names s other \<noteq> {}"
  proof -
    from first_conflict_exists [OF that] obtain n where n: "first_conflict s self other = Some n" ..
    with merge_conflict [OF assms(1) assms(2) ne n] show ?thesis by blast
  qed
  have b: "\<forall>(n, opt) \<in> set (options s other). n \<in> names s self \<longrightarrow>
       get_option (snd (merge s self other True)) (conf_next s) n = Inr opt
     \<and> opt_heap (snd (merge s self other True)) opt = opt_heap s opt"
    using foldl_put_map_of [OF d_other] by (auto simp add: ov get_option_def options_def)
  have c: "names (snd (merge s self other allow_override)) ret = names s self \<union> names s other"
    if r: "fst (merge s self other allow_override) = Inr ret" for ret
  proof (cases allow_override)
    case True
    then show ?thesis
      using ov r foldl_put_keys [of "conf_heap s self" "conf_heap s other"]
      by (simp add: names_def options_def)
  next
    case False
    have "names s self \<inter> names s other = {}"
    proof (rule ccontr)
      assume "names s self \<inter> names s other \<noteq> {}"
      from a [OF this] r False show False by auto
    qed
    from merge_disjoint [OF assms(1) assms(2) ne this, of allow_override] r
    show ?thesis by (simp add: names_def options_def)
  qed
  from a b c ov show ?thesis by blast
qed

theorem merge_shared_names_witness:
  "well_formed test_store 1 \<and> well_formed test_store 2
   \<and> 1 < conf_next test_store \<and> 2 < conf_next test_store
   \<and> names test_store 1 \<inter> names test_store 2 \<noteq> {}
   \<and> first_conflict test_store 1 2 = Some ''o2''
   \<and> fst (merge test_store 1 2 False) = Inl (ConflictingMergeError ''o2'')
   \<and> fst (merge test_store 1 2 True) = Inr 3
   \<and> get_option (snd (merge test_store 1 2 True)) 3 ''o2'' = Inr 12
   \<and> names (snd (merge test_store 1 2 True)) 3 = names test_store 1 \<union> names test_store 2"
proof -
  have h: "well_formed test_store 1" "well_formed test_store 2"
    "1 < conf_next test_store" "2 < conf_next test_store"
    "names test_store 1 \<inter> names test_store 2 \<noteq> {}"
    "(''o2'', 12) \<in> set (options test_store 2)" "''o2'' \<in> names test_store 1"
    "fst (merge test_store 1 2 True) = Inr 3"
    "first_conflict test_store 1 2 = Some ''o2''"
    by (simp_all add: test_store_eval)
  from merge_shared_names [OF h(1-4), of True] h show ?thesis by fastforce
qed

text \<open>
  C2. Two well-formed configurations that exist in the store and share no option name:
  \<open>merge\<close> returns with either flag, the result holds as many options as both inputs
  together, and every option of either input is found in the result under its name, the
  same object in the same state.
\<close>

theorem merge_disjoint_names:
  assumes "well_formed s self" "well_formed s other" "self < conf_next s" "other < conf_next s"
    and "names s self \<inter> names s other = {}"
  shows "\<exists>ret. fst (merge s self other allow_override) = Inr ret
     \<and> length (options (snd (merge s self other allow_override)) ret)
         = length (options s self) + length (options s other)
     \<and> (\<forall>(n, opt) \<in> set (options s self) \<union> set (options s other).
           get_option (snd (merge s self other allow_override)) ret n = Inr opt
         \<and> opt_heap (snd (merge s self other allow_override)) opt = opt_heap s opt)"
proof -
  have ne: "other \<noteq> conf_next s" using assms(4) by simp
  note m = merge_disjoint [OF assms(1) assms(2) ne assms(5), of allow_override]
  have d: "distinct (map fst (conf_heap s self @ conf_heap s other))"
    using assms(1) assms(2) assms(5) by (auto simp add: well_formed_def options_def names_def)
  have mo: "map_of (conf_heap s self @ conf_heap s other) n = Some opt"
    if "(n, opt) \<in> set (conf_heap s self) \<union> set (conf_heap s other)" for n opt
    using d that by (intro map_of_is_SomeI) auto
  have "get_option (snd (merge s self other allow_override)) (conf_next s) n = Inr opt"
    if "(n, opt) \<in> set (conf_heap s self) \<union> set (conf_heap s other)" for n opt
    using mo [OF that] m by (simp add: get_option_def options_def del: map_of_append)
  then have "\<forall>(n, opt) \<in> set (options s self) \<union> set (options s other).
      get_option (snd (merge s self other allow_override)) (conf_next s) n = Inr opt"
    by (auto simp add: options_def)
  then show ?thesis using m by (auto simp add: options_def)
qed

theorem merge_disjoint_names_witness:
  "well_formed test_store 0 \<and> well_formed test_store 1
   \<and> 0 < conf_next test_store \<and> 1 < conf_next test_store
   \<and> names test_store 0 \<inter> names test_store 1 = {}
   \<and> fst (merge test_store 0 1 False) = Inr 3
   \<and> length (options (snd (merge test_store 0 1 False)) 3) = 2
   \<and> get_option (snd (merge test_store 0 1 False)) 3 ''o1'' = Inr 10
   \<and> get_option (snd (merge test_store 0 1 False)) 3 ''o2'' = Inr 11"
proof -
  have h: "well_formed test_store 0" "well_formed test_store 1"
    "0 < conf_next test_store" "1 < conf_next test_store"
    "names test_store 0 \<inter> names test_store 1 = {}"
    by (simp_all add: test_store_eval)
  have o: "options test_store 0 = [(''o1'', 10)]" "options test_store 1 = [(''o2'', 11)]"
    "fst (merge test_store 0 1 False) = Inr 3"
    by (simp_all add: test_store_eval)
  from merge_disjoint_names [OF h, of False] h o(3) show ?thesis
    unfolding o(1,2) by auto
qed

section \<open>DefaultConfiguration: what merge leaves alone and what it shares\<close>

lemma frame_refl: "frame s c new s"
  by (simp add: frame_def)

lemma frame_trans: "frame s c new s' \<Longrightarrow> frame s' c new' s'' \<Longrightarrow> new \<union> new' \<subseteq> new'' \<Longrightarrow> frame s c new'' s''"
proof -
  assume a: "frame s c new s'" and b: "frame s' c new' s''" and n: "new \<union> new' \<subseteq> new''"
  have "opt_heap s'' = opt_heap s" using a b by (simp add: frame_def)
  moreover have "conf_next s'' = conf_next s" using a b by (simp add: frame_def)
  moreover have "\<forall>c'. c' \<noteq> c \<longrightarrow> conf_heap s'' c' = conf_heap s c'"
    using a b by (simp add: frame_def)
  moreover have "snd ` set (conf_heap s'' c) \<subseteq> snd ` set (conf_heap s c) \<union> new''"
  proof -
    have "snd ` set (conf_heap s'' c) \<subseteq> snd ` set (conf_heap s' c) \<union> new'"
      using b by (simp add: frame_def)
    moreover have "snd ` set (conf_heap s' c) \<subseteq> snd ` set (conf_heap s c) \<union> new"
      using a by (simp add: frame_def)
    ultimately show ?thesis using n by blast
  qed
  ultimately show ?thesis by (simp add: frame_def)
qed

lemma add_option_frame: "frame s c {opt} (snd (add_option s c opt))"
  by (auto simp add: frame_def add_option_def options_def Let_def)

lemma remove_option_frame: "frame s c {} (snd (remove_option s c n))"
  by (auto simp add: frame_def remove_option_def options_def)

lemma init_items_frame: "frame s c (snd ` set items) (snd (init_items s c items))"
proof (induction items arbitrary: s)
  case Nil
  then show ?case by (simp add: frame_refl)
next
  case (Cons item items)
  obtain n opt where item: "item = (n, opt)" by (cases item)
  show ?case
  proof (cases "n \<noteq> name (opt_heap s opt)")
    case True
    then show ?thesis using item by (simp add: frame_refl)
  next
    case False
    obtain r s' where a: "add_option s c opt = (r, s')" by (cases "add_option s c opt")
    have f1: "frame s c {opt} s'" using add_option_frame [of s c opt] a by simp
    show ?thesis
    proof (cases r)
      case (Inl e)
      then show ?thesis using False item a f1 by (auto simp add: frame_def)
    next
      case (Inr u)
      have "frame s' c (snd ` set items) (snd (init_items s' c items))" by (rule Cons.IH)
      from frame_trans [OF f1 this, of "snd ` set (item # items)"]
      show ?thesis using False item a Inr by simp
    qed
  qed
qed

lemma merge_items_frame: "frame s c (snd ` set items) (snd (merge_items s c items b))"
proof (induction items arbitrary: s)
  case Nil
  then show ?case by (simp add: frame_refl)
next
  case (Cons item items)
  obtain n opt where item: "item = (n, opt)" by (cases item)
  let ?n = "name (opt_heap s opt)"
  have tail: "frame s1 c (snd ` set (item # items)) (snd (merge_items s2 c items b))"
    if "frame s1 c {opt} s2" for s1 s2
    using frame_trans [OF that Cons.IH [of s2], of "snd ` set (item # items)"] item by simp
  have add: "frame s1 c (snd ` set (item # items))
      (snd (case add_option s2 c opt of (Inl e, s') \<Rightarrow> (Inl e, s')
            | (Inr u, s') \<Rightarrow> merge_items s' c items b))"
    if "frame s1 c {} s2" for s1 s2
  proof -
    obtain r s' where a: "add_option s2 c opt = (r, s')" by (cases "add_option s2 c opt")
    have "frame s2 c {opt} s'" using add_option_frame [of s2 c opt] a by simp
    from frame_trans [OF that this, of "{opt}"] have f: "frame s1 c {opt} s'" by simp
    show ?thesis
    proof (cases r)
      case (Inl e)
      then show ?thesis using a f item by (auto simp add: frame_def)
    next
      case (Inr u)
      then show ?thesis using a tail [OF f] by simp
    qed
  qed
  show ?case
  proof (cases "has_option s c ?n")
    case False
    then show ?thesis using item add [OF frame_refl] by simp
  next
    case True
    show ?thesis
    proof (cases b)
      case False
      then show ?thesis using True item by (auto simp add: frame_def)
    next
      case b: True
      then have bT: "b = True" by simp
      obtain r s' where rm: "remove_option s c ?n = (r, s')" by (cases "remove_option s c ?n")
      have f: "frame s c {} s'" using remove_option_frame [of s c ?n] rm by simp
      show ?thesis
      proof (cases r)
        case (Inl e)
        then show ?thesis using True b item rm f by (auto simp add: frame_def)
      next
        case (Inr u)
        then show ?thesis using True item rm add [OF f] unfolding bT by simp
      qed
    qed
  qed
qed


lemma init_frame:
  "opt_heap (snd (DefaultConfiguration_init s opts)) = opt_heap s
   \<and> conf_next (snd (DefaultConfiguration_init s opts)) = Suc (conf_next s)
   \<and> (\<forall>c. c \<noteq> conf_next s \<longrightarrow> conf_heap (snd (DefaultConfiguration_init s opts)) c = conf_heap s c)
   \<and> (\<forall>ret. fst (DefaultConfiguration_init s opts) = Inr ret \<longrightarrow> ret = conf_next s)
   \<and> snd ` set (conf_heap (snd (DefaultConfiguration_init s opts)) (conf_next s))
        \<subseteq> (case opts of None \<Rightarrow> {} | Some items \<Rightarrow> snd ` set items)"
proof (cases opts)
  case None
  then show ?thesis by (simp add: DefaultConfiguration_init_def Let_def)
next
  case (Some items)
  let ?s0 = "s\<lparr>conf_heap := (conf_heap s)(conf_next s := []), conf_next := Suc (conf_next s)\<rparr>"
  have "frame ?s0 (conf_next s) (snd ` set items) (snd (init_items ?s0 (conf_next s) items))"
    by (rule init_items_frame)
  then show ?thesis using Some
    by (auto simp add: DefaultConfiguration_init_def Let_def frame_def split: prod.splits sum.splits)
      force+
qed

lemma merge_frame:
  "opt_heap (snd (merge s self other b)) = opt_heap s
   \<and> conf_next (snd (merge s self other b)) = Suc (conf_next s)
   \<and> (\<forall>c. c \<noteq> conf_next s \<longrightarrow> conf_heap (snd (merge s self other b)) c = conf_heap s c)
   \<and> (\<forall>ret. fst (merge s self other b) = Inr ret \<longrightarrow> ret = conf_next s)
   \<and> (other \<noteq> conf_next s \<longrightarrow>
        snd ` set (conf_heap (snd (merge s self other b)) (conf_next s))
          \<subseteq> snd ` set (conf_heap s self) \<union> snd ` set (conf_heap s other))"
proof -
  let ?i = "DefaultConfiguration_init s (Some (conf_heap s self))"
  obtain r1 s1 where i: "?i = (r1, s1)" by (cases ?i)
  note f1 = init_frame [of s "Some (conf_heap s self)", unfolded i, simplified]
  show ?thesis
  proof (cases r1)
    case (Inl e)
    then show ?thesis using i f1 by (auto simp add: merge_def options_def)
  next
    case (Inr ret)
    then have ret: "ret = conf_next s" using f1 by simp
    let ?m = "merge_items s1 ret (conf_heap s1 other) b"
    have f2: "frame s1 ret (snd ` set (conf_heap s1 other)) (snd ?m)"
      by (rule merge_items_frame)
    have m: "merge s self other b =
        (case ?m of (Inl e, s'') \<Rightarrow> (Inl e, s'') | (Inr u, s'') \<Rightarrow> (Inr ret, s''))"
      using i Inr by (simp add: merge_def options_def)
    have sm: "snd (merge s self other b) = snd ?m"
      unfolding m by (simp split: prod.splits sum.splits)
    have fm: "\<forall>r. fst (merge s self other b) = Inr r \<longrightarrow> r = ret"
      unfolding m by (simp split: prod.splits sum.splits)
    have "snd ` set (conf_heap (snd ?m) ret) \<subseteq> snd ` set (conf_heap s self) \<union> snd ` set (conf_heap s other)"
      if "other \<noteq> conf_next s"
    proof -
      have "conf_heap s1 other = conf_heap s other" using f1 that by simp
      moreover have "snd ` set (conf_heap (snd ?m) ret) \<subseteq> snd ` set (conf_heap s1 ret) \<union> snd ` set (conf_heap s1 other)"
        using f2 by (simp add: frame_def)
      moreover have "snd ` set (conf_heap s1 ret) \<subseteq> snd ` set (conf_heap s self)"
        using f1 ret by simp
      ultimately show ?thesis by auto
    qed
    moreover have "opt_heap (snd ?m) = opt_heap s" "conf_next (snd ?m) = Suc (conf_next s)"
      "\<forall>c. c \<noteq> conf_next s \<longrightarrow> conf_heap (snd ?m) c = conf_heap s c"
      using f1 f2 ret by (simp_all add: frame_def)
    ultimately show ?thesis unfolding sm using fm ret by simp
  qed
qed


lemma merge_keeps_options_of_other:
  assumes "well_formed s self" "well_formed s other" "other \<noteq> conf_next s"
    and "fst (merge s self other b) = Inr ret" "(n, opt) \<in> set (conf_heap s other)"
  shows "get_option (snd (merge s self other b)) ret n = Inr opt"
proof -
  have d_other: "distinct (map fst (conf_heap s other))"
    using assms(2) by (simp add: well_formed_def options_def)
  show ?thesis
  proof (cases b)
    case True
    note ov = merge_override [OF assms(1) assms(2) assms(3)]
    have "ret = conf_next s" using ov assms(4) True by simp
    then show ?thesis
      using True ov foldl_put_map_of [OF d_other assms(5), of "conf_heap s self"]
      by (simp add: get_option_def options_def)
  next
    case False
    have "names s self \<inter> names s other = {}"
    proof (rule ccontr)
      assume "names s self \<inter> names s other \<noteq> {}"
      from first_conflict_exists [OF this] obtain k where "first_conflict s self other = Some k" ..
      from merge_conflict [OF assms(1) assms(2) assms(3) this] assms(4) False show False by simp
    qed
    note m = merge_disjoint [OF assms(1) assms(2) assms(3) this, of b]
    have dj: "distinct (map fst (conf_heap s self @ conf_heap s other))"
      using assms(1) assms(2) \<open>names s self \<inter> names s other = {}\<close>
      by (auto simp add: well_formed_def options_def names_def)
    have "map_of (conf_heap s self @ conf_heap s other) n = Some opt"
      using dj assms(5) by (intro map_of_is_SomeI) auto
    moreover have "ret = conf_next s" using m assms(4) by simp
    ultimately show ?thesis using m by (simp add: get_option_def options_def del: map_of_append)
  qed
qed

text \<open>
  C9, as amended. \<open>merge\<close> returns a new configuration and changes neither input,
  whether it returns or raises: no option object changes state and every configuration
  that existed holds the items it held. The option objects are not copied: every
  option the result holds is an object that \<open>self\<close> or \<open>other\<close> holds, and for
  well-formed inputs the result holds each option object of \<open>other\<close> under its name.
\<close>

theorem merge_new_container_same_options:
  assumes "self < conf_next s" "other < conf_next s"
  shows "opt_heap (snd (merge s self other b)) = opt_heap s
   \<and> (\<forall>c. c < conf_next s \<longrightarrow> options (snd (merge s self other b)) c = options s c)
   \<and> (\<forall>ret. fst (merge s self other b) = Inr ret \<longrightarrow>
         \<not> ret < conf_next s \<and> ret < conf_next (snd (merge s self other b))
       \<and> snd ` set (options (snd (merge s self other b)) ret)
            \<subseteq> snd ` set (options s self) \<union> snd ` set (options s other)
       \<and> (well_formed s self \<and> well_formed s other \<longrightarrow>
            (\<forall>(n, opt) \<in> set (options s other).
               get_option (snd (merge s self other b)) ret n = Inr opt)))"
proof -
  have ne: "other \<noteq> conf_next s" using assms(2) by simp
  note f = merge_frame [of s self other b]
  have a: "opt_heap (snd (merge s self other b)) = opt_heap s" using f by simp
  have b: "\<forall>c. c < conf_next s \<longrightarrow> options (snd (merge s self other b)) c = options s c"
    using f by (simp add: options_def)
  have c: "\<not> ret < conf_next s \<and> ret < conf_next (snd (merge s self other b))
       \<and> snd ` set (options (snd (merge s self other b)) ret)
            \<subseteq> snd ` set (options s self) \<union> snd ` set (options s other)"
    if "fst (merge s self other b) = Inr ret" for ret
    using f that ne by (simp add: options_def)
  have d: "\<forall>(n, opt) \<in> set (options s other). get_option (snd (merge s self other b)) ret n = Inr opt"
    if "fst (merge s self other b) = Inr ret" "well_formed s self \<and> well_formed s other" for ret
    using merge_keeps_options_of_other [of s self other b ret] that ne
    by (auto simp add: options_def)
  from a b c d show ?thesis by blast
qed

theorem merge_new_container_same_options_witness:
  "0 < conf_next test_store \<and> 1 < conf_next test_store
   \<and> well_formed test_store 0 \<and> well_formed test_store 1
   \<and> fst (merge test_store 0 1 False) = Inr 3
   \<and> opt_heap (snd (merge test_store 0 1 False)) = opt_heap test_store
   \<and> options (snd (merge test_store 0 1 False)) 0 = options test_store 0
   \<and> options (snd (merge test_store 0 1 False)) 1 = options test_store 1
   \<and> \<not> 3 < conf_next test_store
   \<and> snd ` set (options (snd (merge test_store 0 1 False)) 3)
        \<subseteq> snd ` set (options test_store 0) \<union> snd ` set (options test_store 1)
   \<and> get_option (snd (merge test_store 0 1 False)) 3 ''o2'' = Inr 11"
proof -
  have h: "0 < conf_next test_store" "1 < conf_next test_store"
    "well_formed test_store 0" "well_formed test_store 1"
    "fst (merge test_store 0 1 False) = Inr 3"
    "(''o2'', 11) \<in> set (options test_store 1)"
    by (simp_all add: test_store_eval)
  note t = merge_new_container_same_options [OF h(1,2), of False]
  have a: "opt_heap (snd (merge test_store 0 1 False)) = opt_heap test_store"
    using t by blast
  have b: "options (snd (merge test_store 0 1 False)) 0 = options test_store 0"
    "options (snd (merge test_store 0 1 False)) 1 = options test_store 1"
    using t h(1,2) by blast+
  have c: "\<not> 3 < conf_next test_store \<and> snd ` set (options (snd (merge test_store 0 1 False)) 3)
        \<subseteq> snd ` set (options test_store 0) \<union> snd ` set (options test_store 1)"
    using t h(5) by blast
  have d: "get_option (snd (merge test_store 0 1 False)) 3 ''o2'' = Inr 11"
    using t h(3-6) by blast
  from a b c d h show ?thesis by blast
qed

text \<open>
  C9 as stated fails: after \<open>c3 = c1.merge(c2)\<close> the option \<open>o1\<close> of the result and
  the option \<open>o1\<close> of \<open>c1\<close> are one object (address 10). Before, reading its value
  raises; after \<open>c3.get_option('o1').set('value')\<close> the option seen through \<open>c1\<close>
  has the value too.
\<close>

theorem merge_shares_option_objects:
  "fst (merge test_store 0 1 False) = Inr 3
   \<and> get_option (snd (merge test_store 0 1 False)) 3 ''o1'' = Inr 10
   \<and> get_option (snd (merge test_store 0 1 False)) 0 ''o1'' = Inr 10
   \<and> AbstractOption_get (opt_heap (snd (merge test_store 0 1 False)) 10) = Inl AttributeError
   \<and> fst (call_set StringOption_set (snd (merge test_store 0 1 False)) 10 (PyStr ''value'')) = Inr 10
   \<and> AbstractOption_get
        (opt_heap (snd (call_set StringOption_set (snd (merge test_store 0 1 False)) 10 (PyStr ''value''))) 10)
       = Inr (PyStr ''value'')"
  by (simp add: test_store_eval call_set_def StringOption_set_def AbstractOption_set_def
      AbstractOption_get_def)

section \<open>DefaultConfiguration: the interface keeps configurations well formed\<close>

text \<open>
  A configuration made by the constructor is well formed, whatever it is given, and
  \<open>add_option\<close>, \<open>remove_option\<close> and \<open>merge\<close> keep it so: the hypothesis of the
  theorems on \<open>merge\<close> holds of every configuration built through the interface.
\<close>

lemma add_option_wf: "well_formed s c \<Longrightarrow> well_formed (snd (add_option s c opt)) c"
  by (auto simp add: well_formed_def add_option_def options_def Let_def)

lemma remove_option_wf: "well_formed s c \<Longrightarrow> well_formed (snd (remove_option s c n)) c"
  by (auto simp add: well_formed_def remove_option_def options_def distinct_map_filter list_all_iff)

lemma init_items_wf: "well_formed s c \<Longrightarrow> well_formed (snd (init_items s c items)) c"
proof (induction items arbitrary: s)
  case Nil
  then show ?case by simp
next
  case (Cons item items)
  obtain n opt where item: "item = (n, opt)" by (cases item)
  obtain r s' where a: "add_option s c opt = (r, s')" by (cases "add_option s c opt")
  have w: "well_formed s' c" using add_option_wf [OF Cons.prems, of opt] a by simp
  show ?case using item a w Cons.prems Cons.IH [OF w] by (cases r) auto
qed

lemma merge_items_wf: "well_formed s c \<Longrightarrow> well_formed (snd (merge_items s c items b)) c"
proof (induction items arbitrary: s)
  case Nil
  then show ?case by simp
next
  case (Cons item items)
  obtain n opt where item: "item = (n, opt)" by (cases item)
  let ?n = "name (opt_heap s opt)"
  have add: "well_formed (snd (case add_option s1 c opt of (Inl e, s') \<Rightarrow> (Inl e, s')
            | (Inr u, s') \<Rightarrow> merge_items s' c items b)) c"
    if "well_formed s1 c" for s1
  proof -
    obtain r s' where a: "add_option s1 c opt = (r, s')" by (cases "add_option s1 c opt")
    have w: "well_formed s' c" using add_option_wf [OF that, of opt] a by simp
    show ?thesis using a w Cons.IH [OF w] by (cases r) auto
  qed
  obtain r s' where rm: "remove_option s c ?n = (r, s')" by (cases "remove_option s c ?n")
  have w: "well_formed s' c" using remove_option_wf [OF Cons.prems, of ?n] rm by simp
  show ?case using item Cons.prems add [OF Cons.prems] add [OF w] rm w
    by (cases r) auto
qed

lemma init_wf: "well_formed (snd (DefaultConfiguration_init s opts)) (conf_next s)"
proof -
  let ?s0 = "s\<lparr>conf_heap := (conf_heap s)(conf_next s := []), conf_next := Suc (conf_next s)\<rparr>"
  have w: "well_formed ?s0 (conf_next s)" by (simp add: well_formed_def options_def)
  show ?thesis
  proof (cases opts)
    case None
    then show ?thesis using w by (simp add: DefaultConfiguration_init_def Let_def)
  next
    case (Some items)
    then show ?thesis using init_items_wf [OF w, of items]
      by (auto simp add: DefaultConfiguration_init_def Let_def split: prod.splits sum.splits)
  qed
qed

lemma merge_wf: "well_formed (snd (merge s self other b)) (conf_next s)"
proof -
  let ?i = "DefaultConfiguration_init s (Some (options s self))"
  obtain r1 s1 where i: "?i = (r1, s1)" by (cases ?i)
  have w: "well_formed s1 (conf_next s)" using init_wf [of s "Some (options s self)"] i by simp
  have r: "r1 = Inr ret \<Longrightarrow> ret = conf_next s" for ret
    using init_frame [of s "Some (options s self)"] i by simp
  show ?thesis
  proof (cases r1)
    case (Inl e)
    then show ?thesis using i w by (simp add: merge_def)
  next
    case (Inr ret)
    then show ?thesis using i w r [OF Inr] merge_items_wf [OF w, of "options s1 other" b]
      by (auto simp add: merge_def split: prod.splits sum.splits)
  qed
qed

section \<open>Options: get, get_required and the missing boolean option\<close>

lemma get_after_set:
  "AbstractOption_set validate self v = Inr self' \<Longrightarrow>
   AbstractOption_get self' = Inr v \<and> AbstractOption_get_required addr self' comment = Inr v"
  by (auto simp add: AbstractOption_set_def AbstractOption_get_def AbstractOption_get_required_def
      split: sum.splits)

lemma get_after_parse:
  "AbstractOption_parse parse validate self s = Inr self' \<Longrightarrow>
   \<exists>v. parse s = Inr v \<and> AbstractOption_get self' = Inr v
     \<and> AbstractOption_get_required addr self' comment = Inr v"
  by (auto simp add: AbstractOption_parse_def split: sum.splits dest: get_after_set)

lemma get_required_never_set:
  "AbstractOption_get_required addr (AbstractOption_init c lname sname) comment =
     Inl (RequiredOptionMissingError (bound_method_text c ''name'' addr) comment)"
  by (simp add: AbstractOption_get_required_def AbstractOption_init_def Option_unicode_def)

lemma bound_method_text_starts: "hd (bound_method_text c method addr) = CHR ''<''"
  by (simp add: bound_method_text_def)

text \<open>
  C6. The claim: \<open>get_required\<close> on an option that was never set raises
  RequiredValueMissing with the option's name and the comment. The code: the error
  carries the comment, but its \<open>option_name\<close> is \<open>unicode(self)\<close>, which
  \<open>Option.__unicode__\<close> builds from the method \<open>self.name\<close> without calling it. For
  \<open>StringOption('testname').get_required()\<close> the name in the error is the text of a
  bound method, whatever the address of the object, and not \<open>testname\<close>.
\<close>

theorem get_required_carries_method_text:
  "AbstractOption_get_required addr (AbstractOption_init ''StringOption'' ''testname'' None) PyNone
     = Inl (RequiredOptionMissingError (bound_method_text ''StringOption'' ''name'' addr) PyNone)
   \<and> bound_method_text ''StringOption'' ''name'' addr \<noteq> ''testname''
   \<and> bound_method_text ''StringOption'' ''name'' 140000000
       = ''<bound method StringOption.name of <shastity.config.StringOption instance at 0x8583b00>>''"
proof -
  have "hd (bound_method_text ''StringOption'' ''name'' addr) \<noteq> hd ''testname''"
    unfolding bound_method_text_starts by simp
  then have "bound_method_text ''StringOption'' ''name'' addr \<noteq> ''testname''" by metis
  moreover have "bound_method_text ''StringOption'' ''name'' 140000000
       = ''<bound method StringOption.name of <shastity.config.StringOption instance at 0x8583b00>>''"
    by (simp add: bound_method_text_def hex_digit_def)
  ultimately show ?thesis by (simp add: get_required_never_set)
qed

text \<open>
  C8. The claim: \<open>get\<close> returns the last value set, and the default given at construction
  when none was set. The code: after a successful \<open>set\<close> or \<open>parse\<close>, \<open>get\<close> returns that
  value (\<open>get_after_set\<close>, \<open>get_after_parse\<close>); but no option takes a default, so
  \<open>StringOption('testname', default='test')\<close> of \<open>test_default\<close> is a \<open>TypeError\<close>, and
  \<open>get\<close> on an option that was never set raises \<open>AttributeError\<close>.
\<close>

theorem option_takes_no_default:
  "new_option ''StringOption'' ''testname'' None [(''default'', PyStr ''test'')] = Inl TypeError
   \<and> AbstractOption_get (AbstractOption_init ''StringOption'' ''testname'' None) = Inl AttributeError"
  by (simp add: new_option_def AbstractOption_get_def AbstractOption_init_def)

text \<open>
  C7. The claim: a boolean option's \<open>parse\<close> recognises \<open>"true"\<close>, \<open>"false"\<close>, \<open>"1"\<close>
  and \<open>"0"\<close> case-insensitively and raises a parse error on any other string. The
  code: \<open>config.py\<close> defines \<open>StringOption\<close> and \<open>IntOption\<close> and no boolean option, so
  \<open>config.BoolOption("x")\<close> of the claim and of \<open>test_bool_option\<close> raises
  \<open>AttributeError\<close> before any string is parsed, and so does \<open>config.OptionParseError\<close>,
  the error the test expects; the two option classes the module has are found.
\<close>

theorem config_has_no_BoolOption:
  "config_getattr ''BoolOption'' = Inl AttributeError
   \<and> config_getattr ''OptionParseError'' = Inl AttributeError
   \<and> config_getattr ''StringOption'' = Inr ''StringOption''
   \<and> config_getattr ''IntOption'' = Inr ''IntOption''"
  by (simp add: config_getattr_def config_names_def)

end
